theory Spec2Isabelle
  imports Main "HOL-Library.Sublist"
begin

section \<open>The filter scheduler of nova/scheduler/filter_scheduler.py\<close>

text \<open>
  The module holds one class, \<open>FilterScheduler\<close>, with two methods of substance:
  \<open>select_destinations\<close> (lines 62 to 104) and the placement loop \<open>_schedule\<close>
  (lines 110 to 174). Everything else they touch is a collaborator that lives outside
  the module: the host manager (host states, filter chain, weigher chain), the
  \<open>HostState\<close> and \<open>RequestSpec\<close> classes, the notifier, the logger, the
  configuration option and Python's \<open>random\<close> module. Collaborators are parameters of
  the model, collected in the record \<open>env\<close>. A collaborator that raises ends the call
  with its own exception (the module has no \<open>try\<close>); the model covers the calls in
  which the collaborators return.
\<close>

subsection \<open>Data\<close>

text \<open>
  Host states are mutable objects shared between the host lists, the weighed hosts and
  the selected hosts, so they live in an explicit store: a reference is a natural number
  and the heap maps references to host states.
\<close>

type_synonym href = nat

text \<open>
  Modelled from the spec: the class \<open>HostState\<close> is not part of the module. The fields
  are the ones the module reads or writes (\<open>host\<close>, \<open>nodename\<close>, \<open>limits\<close>,
  \<open>updated\<close>, which is a time stamp or None) and one number for the available
  capacity that consumption debits. The limits are opaque to the module.
\<close>

record 'l HostState =
  host :: string
  nodename :: string
  limits :: 'l
  updated :: "nat option"
  available_capacity :: int

type_synonym 'l heap = "href \<Rightarrow> 'l HostState"

text \<open>A weighed host wraps a reference to a host state (\<open>.obj\<close>) and its weight.\<close>

record 'w WeighedHost =
  obj :: href
  weight :: 'w

text \<open>
  Modelled from the spec: the dictionary \<open>filter_properties\<close> is built by
  \<open>RequestSpec.to_legacy_filter_properties_dict\<close>, which is not part of the module.
  The module itself reads the key \<open>group_updated\<close> (the field is the outcome of the
  test \<open>is True\<close>) and adds to the set under \<open>group_hosts\<close>, the group-affinity host
  set that the spec's filter context carries; the other keys are only handed on to the
  filters and weighers.
\<close>

record filter_properties =
  group_updated :: bool
  group_hosts :: "string set"

text \<open>
  Modelled from the spec: the class \<open>RequestSpec\<close> is not part of the module.
  \<open>num_instances\<close> is the number of instances of the batch, a count (a positive
  integer in the spec's data model; zero is looked at too); the field
  \<open>legacy_filter_properties\<close> is what \<open>to_legacy_filter_properties_dict()\<close> returns.
\<close>

record RequestSpec =
  num_instances :: nat
  legacy_filter_properties :: filter_properties

text \<open>The dictionary \<open>dict(host=..., nodename=..., limits=...)\<close> of line 98.\<close>

record 'l Destination =
  dest_host :: string
  dest_nodename :: string
  dest_limits :: 'l

datatype error = NoValidHost string | IndexError

text \<open>
  What the module sends to the notifier (\<open>self.notifier.info\<close>) and to the debug log
  (\<open>LOG.debug\<close>), in the order of the calls.
\<close>

datatype 'w event =
    Notifier_info string
  | Debug_filtered "href list"
  | Debug_weighed "'w WeighedHost list"
  | Debug_selected "'w WeighedHost"
  | Debug_not_enough nat nat

text \<open>
  The collaborators. The host manager's three calls may read and mutate host states,
  and the filter and weigher chains also receive the \<open>filter_properties\<close> dictionary by
  reference. \<open>consume_from_request\<close> is a method of one host state. \<open>draw\<close> is the
  random source: it yields a number and the next generator state.
\<close>

record ('l, 'w, 'r) env =
  get_all_host_states :: "'l heap \<Rightarrow> href list \<times> 'l heap"
  get_filtered_hosts ::
    "'l heap \<Rightarrow> filter_properties \<Rightarrow> href list \<Rightarrow> nat \<Rightarrow> href list \<times> 'l heap \<times> filter_properties"
  get_weighed_hosts ::
    "'l heap \<Rightarrow> filter_properties \<Rightarrow> href list \<Rightarrow> 'w WeighedHost list \<times> 'l heap \<times> filter_properties"
  consume_from_request :: "RequestSpec \<Rightarrow> 'l HostState \<Rightarrow> 'l HostState"
  draw :: "'r \<Rightarrow> nat \<times> 'r"
  scheduler_host_subset_size :: int

text \<open>The state a call runs in: the heap, the random generator, and the output so far.\<close>

record ('l, 'w, 'r) state =
  heap :: "'l heap"
  rng :: 'r
  trace :: "'w event list"

subsection \<open>The subset pick (lines 158 to 165)\<close>

text \<open>
  Lines 158 to 162: the configured size is first cut down to the length of the weighed
  list, then raised to 1.
\<close>

definition subset_size :: "int \<Rightarrow> nat \<Rightarrow> int" where
  "subset_size configured len =
     (let s = (if configured > int len then int len else configured)
      in if s < 1 then 1 else s)"

text \<open>
  \<open>random.choice(seq)\<close> raises IndexError on an empty sequence and otherwise returns
  the element at an index drawn below \<open>len(seq)\<close>. The draw of the random source is
  reduced below the length, so every index can come up and no other.
\<close>

definition choice :: "('r \<Rightarrow> nat \<times> 'r) \<Rightarrow> 'r \<Rightarrow> 'a list \<Rightarrow> error + ('a \<times> 'r)" where
  "choice d r seq =
     (if seq = [] then Inl IndexError
      else (case d r of (k, r') \<Rightarrow> Inr (seq ! (k mod length seq), r')))"

text \<open>
  Lines 158 to 165 together. The slice \<open>weighed_hosts[0:size]\<close> has a size of at
  least 1, so it is the first \<open>size\<close> entries.
\<close>

definition pick ::
  "('l, 'w, 'r) env \<Rightarrow> 'w WeighedHost list \<Rightarrow> 'r \<Rightarrow> error + ('w WeighedHost \<times> 'r)" where
  "pick e weighed_hosts r =
     choice (draw e) r
       (take (nat (subset_size (scheduler_host_subset_size e) (length weighed_hosts)))
          weighed_hosts)"

subsection \<open>The placement loop (lines 110 to 174)\<close>

text \<open>
  One round of the loop (lines 144 to 173) ends in one of three ways: an exception, the
  \<open>break\<close> of line 149, or the next round with the filtered host list, the chosen
  host and the updated dictionary. The log lines 151 and 156 are written together once
  the weigher has returned (the weigher does not see the log); the chosen host is
  appended to the selection by the loop below.
\<close>

datatype ('l, 'w, 'r) step =
    Raise error "('l, 'w, 'r) state"
  | Break "('l, 'w, 'r) state"
  | Next "href list" "'w WeighedHost" filter_properties "('l, 'w, 'r) state"

definition schedule_round ::
  "('l, 'w, 'r) env \<Rightarrow> RequestSpec \<Rightarrow> nat \<Rightarrow> href list \<Rightarrow> filter_properties \<Rightarrow>
     ('l, 'w, 'r) state \<Rightarrow> ('l, 'w, 'r) step" where
  "schedule_round e spec_obj num hosts props st =
     (case get_filtered_hosts e (heap st) props hosts num of (hosts', h1, p1) \<Rightarrow>
        if hosts' = [] then Break (st\<lparr>heap := h1\<rparr>)
        else
          (case get_weighed_hosts e h1 p1 hosts' of (weighed_hosts, h2, p2) \<Rightarrow>
             let st2 = st\<lparr>heap := h2,
                         trace := trace st @ [Debug_filtered hosts', Debug_weighed weighed_hosts]\<rparr>
             in
               (case pick e weighed_hosts (rng st2) of
                  Inl err \<Rightarrow> Raise err st2
                | Inr (chosen_host, r') \<Rightarrow>
                    let h3 = h2(obj chosen_host :=
                                  consume_from_request e spec_obj (h2 (obj chosen_host)));
                        p3 = (if group_updated p2
                              then p2\<lparr>group_hosts :=
                                        insert (host (h3 (obj chosen_host))) (group_hosts p2)\<rparr>
                              else p2)
                    in Next hosts' chosen_host p3
                         (st2\<lparr>heap := h3, rng := r',
                              trace := trace st2 @ [Debug_selected chosen_host]\<rparr>))))"

text \<open>
  The loop \<open>for num in range(num_instances)\<close>: the rounds still to run are the first
  argument. The host list of the next round is the filtered list of this one (line 145
  assigns to \<open>hosts\<close>).
\<close>

fun schedule_loop ::
  "('l, 'w, 'r) env \<Rightarrow> RequestSpec \<Rightarrow> nat list \<Rightarrow> href list \<Rightarrow> 'w WeighedHost list \<Rightarrow>
     filter_properties \<Rightarrow> ('l, 'w, 'r) state \<Rightarrow>
     (error + 'w WeighedHost list) \<times> ('l, 'w, 'r) state" where
  "schedule_loop e spec_obj [] hosts selected_hosts props st = (Inr selected_hosts, st)"
| "schedule_loop e spec_obj (num # nums) hosts selected_hosts props st =
     (case schedule_round e spec_obj num hosts props st of
        Raise err st' \<Rightarrow> (Inl err, st')
      | Break st' \<Rightarrow> (Inr selected_hosts, st')
      | Next hosts' chosen_host props' st' \<Rightarrow>
          schedule_loop e spec_obj nums hosts' (selected_hosts @ [chosen_host]) props' st')"

text \<open>
  \<open>_schedule\<close>: fetch the host states once (line 126), build the dictionary (lines 132
  to 142), run the loop from an empty selection.
\<close>

definition schedule ::
  "('l, 'w, 'r) env \<Rightarrow> RequestSpec \<Rightarrow> ('l, 'w, 'r) state \<Rightarrow>
     (error + 'w WeighedHost list) \<times> ('l, 'w, 'r) state" where
  "schedule e spec_obj st =
     (case get_all_host_states e (heap st) of (hosts, h0) \<Rightarrow>
        schedule_loop e spec_obj [0..<num_instances spec_obj] hosts []
          (legacy_filter_properties spec_obj) (st\<lparr>heap := h0\<rparr>))"

subsection \<open>select_destinations (lines 62 to 104)\<close>

text \<open>Lines 84 and 85: \<open>host.obj.updated = None\<close> for every selected host, in order.\<close>

definition invalidate :: "'w WeighedHost list \<Rightarrow> 'l heap \<Rightarrow> 'l heap" where
  "invalidate selected_hosts h =
     fold (\<lambda>wh h'. h'(obj wh := (h' (obj wh))\<lparr>updated := None\<rparr>)) selected_hosts h"

definition destination :: "'l heap \<Rightarrow> 'w WeighedHost \<Rightarrow> 'l Destination" where
  "destination h wh =
     \<lparr>dest_host = host (h (obj wh)), dest_nodename = nodename (h (obj wh)),
      dest_limits = limits (h (obj wh))\<rparr>"

definition notify_start :: "('l, 'w, 'r) state \<Rightarrow> ('l, 'w, 'r) state" where
  "notify_start st = st\<lparr>trace := trace st @ [Notifier_info ''scheduler.select_destinations.start'']\<rparr>"

definition select_destinations ::
  "('l, 'w, 'r) env \<Rightarrow> RequestSpec \<Rightarrow> ('l, 'w, 'r) state \<Rightarrow>
     (error + 'l Destination list) \<times> ('l, 'w, 'r) state" where
  "select_destinations e spec_obj st =
     (case schedule e spec_obj (notify_start st) of
        (Inl err, st1) \<Rightarrow> (Inl err, st1)
      | (Inr selected_hosts, st1) \<Rightarrow>
          if length selected_hosts < num_instances spec_obj then
            (Inl (NoValidHost ''There are not enough hosts available.''),
             st1\<lparr>heap := invalidate selected_hosts (heap st1),
                 trace := trace st1 @
                   [Debug_not_enough (length selected_hosts) (num_instances spec_obj)]\<rparr>)
          else
            (Inr (map (destination (heap st1)) selected_hosts),
             st1\<lparr>trace := trace st1 @ [Notifier_info ''scheduler.select_destinations.end'']\<rparr>))"

subsection \<open>The specification's clamp and the filtered lists of a run\<close>

text \<open>
  The specification writes the effective subset size as \<open>clamp(c, 1, len(weighed))\<close>.
  This is the clamp of its words: the value cut down to the upper bound, then raised to
  the lower bound. It is compared with \<open>subset_size\<close>, which follows the source.
\<close>

definition clamp :: "int \<Rightarrow> int \<Rightarrow> int \<Rightarrow> int" where
  "clamp x lo hi = max lo (min x hi)"

text \<open>
  Line 151 logs the filtered host list of every round that gets past the \<open>break\<close>.
  \<open>filtered_lists\<close> reads these lists back from the output, in the order of the rounds.
\<close>

fun filtered_lists :: "'w event list \<Rightarrow> href list list" where
  "filtered_lists [] = []"
| "filtered_lists (Debug_filtered hs # evs) = hs # filtered_lists evs"
| "filtered_lists (ev # evs) = filtered_lists evs"

text \<open>
  Line 156 logs the weighed list of every round that gets as far as the pick.
  \<open>weighed_lists\<close> reads these lists back from the output, in the order of the rounds.
\<close>

fun weighed_lists :: "'w event list \<Rightarrow> 'w WeighedHost list list" where
  "weighed_lists [] = []"
| "weighed_lists (Debug_weighed ws # evs) = ws # weighed_lists evs"
| "weighed_lists (ev # evs) = weighed_lists evs"

subsection \<open>Concrete collaborators\<close>

text \<open>
  Three small host managers for running the scheduler on concrete inputs. All of them
  know the hosts 0, 1 and 2, weigh by keeping the order of the list, debit one unit of
  capacity per instance and use a subset size of 1. \<open>capacity_env\<close> filters out the
  hosts with no capacity left; \<open>all_pass_env\<close> lets every host pass in every round;
  the weigher of \<open>empty_weigher_env\<close> returns an empty sequence.
\<close>

definition wrap :: "href \<Rightarrow> nat WeighedHost" where
  "wrap a = \<lparr>obj = a, weight = 0\<rparr>"

definition named_host :: "href \<Rightarrow> int \<Rightarrow> unit HostState" where
  "named_host a c =
     \<lparr>host = replicate (Suc a) (CHR ''h''), nodename = ''node'', limits = (),
      updated = Some 1, available_capacity = c\<rparr>"

definition capacity_env :: "(unit, nat, nat) env" where
  "capacity_env =
     \<lparr>get_all_host_states = (\<lambda>h. ([0, 1, 2], h)),
      get_filtered_hosts =
        (\<lambda>h p hosts num. (filter (\<lambda>a. 0 < available_capacity (h a)) hosts, h, p)),
      get_weighed_hosts = (\<lambda>h p hosts. (map wrap hosts, h, p)),
      consume_from_request =
        (\<lambda>spec_obj hs. hs\<lparr>available_capacity := available_capacity hs - 1\<rparr>),
      draw = (\<lambda>r. (r, Suc r)),
      scheduler_host_subset_size = 1\<rparr>"

definition empty_weigher_env :: "(unit, nat, nat) env" where
  "empty_weigher_env = capacity_env\<lparr>get_weighed_hosts := (\<lambda>h p hosts. ([], h, p))\<rparr>"

definition all_pass_env :: "(unit, nat, nat) env" where
  "all_pass_env = capacity_env\<lparr>get_filtered_hosts := (\<lambda>h p hosts num. (hosts, h, p))\<rparr>"

definition batch :: "nat \<Rightarrow> RequestSpec" where
  "batch n = \<lparr>num_instances = n,
              legacy_filter_properties = \<lparr>group_updated = False, group_hosts = {}\<rparr>\<rparr>"

text \<open>A state in which every host has capacity \<open>c\<close> and a set refresh marker.\<close>

definition start_state :: "int \<Rightarrow> (unit, nat, nat) state" where
  "start_state c = \<lparr>heap = (\<lambda>a. named_host a c), rng = 0, trace = []\<rparr>"

section \<open>Lemmas\<close>

subsection \<open>The subset pick\<close>

lemma subset_size_clamp: "subset_size c n = clamp c 1 (int n)"
  by (simp add: subset_size_def clamp_def Let_def max_def min_def)

lemma subset_size_ge1: "1 \<le> subset_size c n"
  by (simp add: subset_size_def Let_def)

lemma choice_Inr_mem: "choice d r seq = Inr (x, r') \<Longrightarrow> x \<in> set seq"
  by (auto simp: choice_def split: if_splits prod.splits)

lemma choice_nonempty: "seq \<noteq> [] \<Longrightarrow> \<exists>x r'. choice d r seq = Inr (x, r')"
  by (auto simp: choice_def split: prod.splits)

lemma choice_empty: "choice d r [] = Inl IndexError"
  by (simp add: choice_def)

lemma choice_single: "choice d r [x] = Inr (x, snd (d r))"
  by (simp add: choice_def split: prod.splits)

lemma pick_nonempty: "ws \<noteq> [] \<Longrightarrow> \<exists>x r'. pick e ws r = Inr (x, r')"
proof -
  assume ne: "ws \<noteq> []"
  have "0 < nat (subset_size (scheduler_host_subset_size e) (length ws))"
    using subset_size_ge1 [of "scheduler_host_subset_size e" "length ws"] by simp
  with ne have "take (nat (subset_size (scheduler_host_subset_size e) (length ws))) ws \<noteq> []"
    by simp
  then show ?thesis unfolding pick_def by (rule choice_nonempty)
qed

lemma pick_empty: "pick e [] r = Inl IndexError"
  by (simp add: pick_def choice_empty)

lemma subset_size_one: "c \<le> 1 \<Longrightarrow> subset_size c n = 1"
  by (simp add: subset_size_def Let_def)

lemma pick_first:
  assumes "scheduler_host_subset_size e \<le> 1" and "ws \<noteq> []"
  shows "pick e ws r = Inr (hd ws, snd (draw e r))"
proof -
  from assms(2) have "take (Suc 0) ws = [hd ws]" by (cases ws) simp_all
  with assms(1) show ?thesis
    by (simp add: pick_def subset_size_one choice_single)
qed

subsection \<open>One round and the loop\<close>

lemma schedule_round_cases [case_names brk rse nxt]:
  obtains
    (brk) h1 p1 where
      "get_filtered_hosts e (heap st) props hosts num = ([], h1, p1)"
      "schedule_round e spec_obj num hosts props st = Break (st\<lparr>heap := h1\<rparr>)"
  | (rse) hosts' h1 p1 ws h2 p2 err where
      "get_filtered_hosts e (heap st) props hosts num = (hosts', h1, p1)"
      "hosts' \<noteq> []"
      "get_weighed_hosts e h1 p1 hosts' = (ws, h2, p2)"
      "pick e ws (rng st) = Inl err"
      "schedule_round e spec_obj num hosts props st =
         Raise err (st\<lparr>heap := h2,
                        trace := trace st @ [Debug_filtered hosts', Debug_weighed ws]\<rparr>)"
  | (nxt) hosts' h1 p1 ws h2 p2 ch r' where
      "get_filtered_hosts e (heap st) props hosts num = (hosts', h1, p1)"
      "hosts' \<noteq> []"
      "get_weighed_hosts e h1 p1 hosts' = (ws, h2, p2)"
      "pick e ws (rng st) = Inr (ch, r')"
      "schedule_round e spec_obj num hosts props st =
         Next hosts' ch
           (if group_updated p2
            then p2\<lparr>group_hosts :=
                      insert (host (consume_from_request e spec_obj (h2 (obj ch)))) (group_hosts p2)\<rparr>
            else p2)
           (st\<lparr>heap := h2(obj ch := consume_from_request e spec_obj (h2 (obj ch))),
                rng := r',
                trace := trace st @ [Debug_filtered hosts', Debug_weighed ws, Debug_selected ch]\<rparr>)"
proof -
  obtain hosts' h1 p1 where f: "get_filtered_hosts e (heap st) props hosts num = (hosts', h1, p1)"
    by (cases "get_filtered_hosts e (heap st) props hosts num") auto
  obtain ws h2 p2 where w: "get_weighed_hosts e h1 p1 hosts' = (ws, h2, p2)"
    by (cases "get_weighed_hosts e h1 p1 hosts'") auto
  show thesis
  proof (cases "hosts' = []")
    case True
    with f have "schedule_round e spec_obj num hosts props st = Break (st\<lparr>heap := h1\<rparr>)"
      by (simp add: schedule_round_def)
    with f True show thesis using brk by simp
  next
    case False
    show thesis
    proof (cases "pick e ws (rng st)")
      case (Inl err)
      with f w False have "schedule_round e spec_obj num hosts props st =
         Raise err (st\<lparr>heap := h2,
                        trace := trace st @ [Debug_filtered hosts', Debug_weighed ws]\<rparr>)"
        by (simp add: schedule_round_def Let_def)
      with f w False Inl show thesis using rse by blast
    next
      case (Inr b)
      obtain ch r' where b: "b = (ch, r')" by (cases b) auto
      with f w False Inr have "schedule_round e spec_obj num hosts props st =
         Next hosts' ch
           (if group_updated p2
            then p2\<lparr>group_hosts :=
                      insert (host (consume_from_request e spec_obj (h2 (obj ch)))) (group_hosts p2)\<rparr>
            else p2)
           (st\<lparr>heap := h2(obj ch := consume_from_request e spec_obj (h2 (obj ch))),
                rng := r',
                trace := trace st @ [Debug_filtered hosts', Debug_weighed ws, Debug_selected ch]\<rparr>)"
        by (simp add: schedule_round_def Let_def)
      with f w False Inr b show thesis using nxt by blast
    qed
  qed
qed

lemma schedule_round_break:
  "fst (get_filtered_hosts e (heap st) props hosts num) = [] \<Longrightarrow>
   schedule_round e spec_obj num hosts props st =
     Break (st\<lparr>heap := fst (snd (get_filtered_hosts e (heap st) props hosts num))\<rparr>)"
  by (cases rule: schedule_round_cases [of e st props hosts num spec_obj]) simp_all

lemma schedule_round_next_hosts:
  "schedule_round e spec_obj num hosts props st = Next hosts' ch p' st' \<Longrightarrow>
   hosts' = fst (get_filtered_hosts e (heap st) props hosts num) \<and> hosts' \<noteq> []"
  by (cases rule: schedule_round_cases [of e st props hosts num spec_obj]) simp_all

lemma schedule_round_no_break:
  "fst (get_filtered_hosts e (heap st) props hosts num) \<noteq> [] \<Longrightarrow>
   schedule_round e spec_obj num hosts props st \<noteq> Break st'"
  by (cases rule: schedule_round_cases [of e st props hosts num spec_obj]) simp_all

lemma schedule_round_no_raise:
  assumes "\<forall>h p hs. hs \<noteq> [] \<longrightarrow> fst (get_weighed_hosts e h p hs) \<noteq> []"
  shows "schedule_round e spec_obj num hosts props st \<noteq> Raise err st'"
proof (cases rule: schedule_round_cases [of e st props hosts num spec_obj])
  case (brk h1 p1)
  then show ?thesis by simp
next
  case (rse hosts' h1 p1 ws h2 p2 err')
  from assms rse(2) have "fst (get_weighed_hosts e h1 p1 hosts') \<noteq> []" by blast
  with rse(3) have "ws \<noteq> []" by simp
  from pick_nonempty [OF this, of e "rng st"] rse(4) show ?thesis by simp
next
  case (nxt hosts' h1 p1 ws h2 p2 ch r')
  then show ?thesis by simp
qed

lemma schedule_loop_length_le:
  "schedule_loop e spec_obj nums hosts sel props st = (Inr sel', st') \<Longrightarrow>
   length sel' \<le> length sel + length nums"
proof (induction nums arbitrary: hosts sel props st)
  case Nil
  then show ?case by simp
next
  case (Cons num nums)
  show ?case
  proof (cases "schedule_round e spec_obj num hosts props st")
    case (Raise err s)
    with Cons.prems show ?thesis by simp
  next
    case (Break s)
    with Cons.prems show ?thesis by simp
  next
    case (Next hs ch p s)
    with Cons.prems have "schedule_loop e spec_obj nums hs (sel @ [ch]) p s = (Inr sel', st')"
      by simp
    from Cons.IH [OF this] show ?thesis by simp
  qed
qed

lemma schedule_length_le:
  "fst (schedule e spec_obj st) = Inr sel \<Longrightarrow> length sel \<le> num_instances spec_obj"
proof -
  assume a: "fst (schedule e spec_obj st) = Inr sel"
  obtain hosts h0 where g: "get_all_host_states e (heap st) = (hosts, h0)"
    by (cases "get_all_host_states e (heap st)") auto
  have "schedule e spec_obj st = schedule_loop e spec_obj [0..<num_instances spec_obj] hosts []
      (legacy_filter_properties spec_obj) (st\<lparr>heap := h0\<rparr>)"
    by (simp add: schedule_def g)
  with a have "schedule_loop e spec_obj [0..<num_instances spec_obj] hosts []
      (legacy_filter_properties spec_obj) (st\<lparr>heap := h0\<rparr>) = (Inr sel, snd (schedule e spec_obj st))"
    by (simp add: prod_eq_iff)
  from schedule_loop_length_le [OF this] show ?thesis by simp
qed

lemma schedule_loop_returns:
  assumes "\<forall>h p hs. hs \<noteq> [] \<longrightarrow> fst (get_weighed_hosts e h p hs) \<noteq> []"
  shows "\<exists>sel'. fst (schedule_loop e spec_obj nums hosts sel props st) = Inr sel'"
proof (induction nums arbitrary: hosts sel props st)
  case Nil
  show ?case by simp
next
  case (Cons num nums)
  show ?case
  proof (cases "schedule_round e spec_obj num hosts props st")
    case (Raise err s)
    with schedule_round_no_raise [OF assms] show ?thesis by blast
  next
    case (Break s)
    then show ?thesis by simp
  next
    case (Next hs ch p s)
    with Cons.IH [of hs "sel @ [ch]" p s] show ?thesis by simp
  qed
qed

lemma schedule_loop_full:
  assumes pass: "\<forall>h p hs i. fst (get_filtered_hosts e h p hs i) = hs"
    and ne: "hosts \<noteq> []"
  shows "schedule_loop e spec_obj nums hosts sel props st = (Inr sel', st') \<Longrightarrow>
         length sel' = length sel + length nums"
proof (induction nums arbitrary: sel props st)
  case Nil
  then show ?case by simp
next
  case (Cons num nums)
  show ?case
  proof (cases "schedule_round e spec_obj num hosts props st")
    case (Raise err s)
    with Cons.prems show ?thesis by simp
  next
    case (Break s)
    moreover have "fst (get_filtered_hosts e (heap st) props hosts num) \<noteq> []"
      using pass ne by simp
    ultimately show ?thesis using schedule_round_no_break by blast
  next
    case (Next hs ch p s)
    from schedule_round_next_hosts [OF Next] pass have "hs = hosts" by simp
    with Next Cons.prems
    have "schedule_loop e spec_obj nums hosts (sel @ [ch]) p s = (Inr sel', st')" by simp
    from Cons.IH [OF this] show ?thesis by simp
  qed
qed

subsection \<open>The three exits of select_destinations\<close>

lemma updated_invalidate:
  "updated (invalidate sel h a) = (if a \<in> obj ` set sel then None else updated (h a))"
proof (induction sel arbitrary: h)
  case Nil
  show ?case by (simp add: invalidate_def)
next
  case (Cons wh sel)
  have "invalidate (wh # sel) h = invalidate sel (h(obj wh := (h (obj wh))\<lparr>updated := None\<rparr>))"
    by (simp add: invalidate_def)
  then show ?case by (simp add: Cons.IH)
qed

lemma select_destinations_short:
  assumes "fst (schedule e spec_obj (notify_start st)) = Inr sel"
    and "length sel < num_instances spec_obj"
  shows "select_destinations e spec_obj st =
    (Inl (NoValidHost ''There are not enough hosts available.''),
     (snd (schedule e spec_obj (notify_start st)))
       \<lparr>heap := invalidate sel (heap (snd (schedule e spec_obj (notify_start st)))),
        trace := trace (snd (schedule e spec_obj (notify_start st))) @
                   [Debug_not_enough (length sel) (num_instances spec_obj)]\<rparr>)"
proof -
  obtain r s where rs: "schedule e spec_obj (notify_start st) = (r, s)"
    by (cases "schedule e spec_obj (notify_start st)") auto
  with assms show ?thesis by (simp add: select_destinations_def)
qed

lemma select_destinations_full:
  assumes "fst (schedule e spec_obj (notify_start st)) = Inr sel"
    and "\<not> length sel < num_instances spec_obj"
  shows "select_destinations e spec_obj st =
    (Inr (map (destination (heap (snd (schedule e spec_obj (notify_start st))))) sel),
     (snd (schedule e spec_obj (notify_start st)))
       \<lparr>trace := trace (snd (schedule e spec_obj (notify_start st))) @
                   [Notifier_info ''scheduler.select_destinations.end'']\<rparr>)"
proof -
  obtain r s where rs: "schedule e spec_obj (notify_start st) = (r, s)"
    by (cases "schedule e spec_obj (notify_start st)") auto
  with assms show ?thesis by (simp add: select_destinations_def)
qed

lemma select_destinations_raise:
  assumes "fst (schedule e spec_obj (notify_start st)) = Inl err"
  shows "select_destinations e spec_obj st = (Inl err, snd (schedule e spec_obj (notify_start st)))"
proof -
  obtain r s where rs: "schedule e spec_obj (notify_start st) = (r, s)"
    by (cases "schedule e spec_obj (notify_start st)") auto
  with assms show ?thesis by (simp add: select_destinations_def)
qed

subsection \<open>Runs that narrow, ignore the random source, or stay on one host\<close>

lemma schedule_loop_narrows:
  assumes sub: "\<forall>h p hs i. subseq (fst (get_filtered_hosts e h p hs i)) hs"
  shows "\<exists>evs. trace (snd (schedule_loop e spec_obj nums hosts sel props st)) = trace st @ evs
           \<and> sorted_wrt (\<lambda>a b. subseq b a) (hosts # filtered_lists evs)"
proof (induction nums arbitrary: hosts sel props st)
  case Nil
  show ?case by simp
next
  case (Cons num nums)
  show ?case
  proof (cases rule: schedule_round_cases [of e st props hosts num spec_obj])
    case (brk h1 p1)
    then show ?thesis by simp
  next
    case (rse hosts' h1 p1 ws h2 p2 err)
    from sub have "subseq (fst (get_filtered_hosts e (heap st) props hosts num)) hosts" by blast
    with rse(1) have "subseq hosts' hosts" by simp
    with rse(5) show ?thesis by simp
  next
    case (nxt hosts' h1 p1 ws h2 p2 ch r')
    from sub have "subseq (fst (get_filtered_hosts e (heap st) props hosts num)) hosts" by blast
    with nxt(1) have hh: "subseq hosts' hosts" by simp
    let ?p = "if group_updated p2
            then p2\<lparr>group_hosts :=
                      insert (host (consume_from_request e spec_obj (h2 (obj ch)))) (group_hosts p2)\<rparr>
            else p2"
    let ?s = "st\<lparr>heap := h2(obj ch := consume_from_request e spec_obj (h2 (obj ch))),
                rng := r',
                trace := trace st @ [Debug_filtered hosts', Debug_weighed ws, Debug_selected ch]\<rparr>"
    from Cons.IH [of hosts' "sel @ [ch]" ?p ?s]
    obtain evs where ev: "trace (snd (schedule_loop e spec_obj nums hosts' (sel @ [ch]) ?p ?s)) =
        trace ?s @ evs" and so: "sorted_wrt (\<lambda>a b. subseq b a) (hosts' # filtered_lists evs)"
      by blast
    have loop: "schedule_loop e spec_obj (num # nums) hosts sel props st =
        schedule_loop e spec_obj nums hosts' (sel @ [ch]) ?p ?s"
      using nxt(5) by simp
    have tr: "trace (snd (schedule_loop e spec_obj (num # nums) hosts sel props st)) =
        trace st @ ([Debug_filtered hosts', Debug_weighed ws, Debug_selected ch] @ evs)"
      using ev loop by simp
    have "\<forall>y \<in> set (filtered_lists evs). subseq y hosts"
      using so hh by (auto intro: subseq_order.trans)
    with so hh have "sorted_wrt (\<lambda>a b. subseq b a)
        (hosts # filtered_lists ([Debug_filtered hosts', Debug_weighed ws, Debug_selected ch] @ evs))"
      by simp
    with tr show ?thesis by blast
  qed
qed

lemma schedule_loop_ignores_rng:
  assumes one: "scheduler_host_subset_size e \<le> 1"
    and same: "heap st' = heap st" "trace st' = trace st"
  shows "fst (schedule_loop (e\<lparr>draw := d'\<rparr>) spec_obj nums hosts sel props st') =
           fst (schedule_loop e spec_obj nums hosts sel props st)"
  using same
proof (induction nums arbitrary: hosts sel props st st')
  case Nil
  show ?case by simp
next
  case (Cons num nums)
  let ?e = "e\<lparr>draw := d'\<rparr>"
  from one have one': "scheduler_host_subset_size ?e \<le> 1" by simp
  note hp = Cons.prems
  show ?case
  proof (cases rule: schedule_round_cases [of e st props hosts num spec_obj])
    case (brk h1 p1)
    with hp have "schedule_round ?e spec_obj num hosts props st' = Break (st'\<lparr>heap := h1\<rparr>)"
      by (simp add: schedule_round_def)
    with brk(2) show ?thesis by simp
  next
    case (rse hosts' h1 p1 ws h2 p2 err)
    from rse(4) pick_nonempty [of ws e "rng st"] have ws: "ws = []" by auto
    with rse(4) have err: "err = IndexError" by (simp add: pick_empty)
    from rse(1-3) ws hp have "schedule_round ?e spec_obj num hosts props st' =
        Raise IndexError (st'\<lparr>heap := h2,
                        trace := trace st' @ [Debug_filtered hosts', Debug_weighed ws]\<rparr>)"
      by (simp add: schedule_round_def Let_def pick_empty)
    with rse(5) err show ?thesis by simp
  next
    case (nxt hosts' h1 p1 ws h2 p2 ch r'')
    from nxt(4) have ws: "ws \<noteq> []" by (auto simp: pick_empty)
    from pick_first [OF one ws, of "rng st"] nxt(4) have ch: "ch = hd ws" by simp
    have pk: "pick ?e ws (rng st') = Inr (ch, snd (d' (rng st')))"
      using pick_first [OF one' ws, of "rng st'"] ch by simp
    let ?p = "if group_updated p2
            then p2\<lparr>group_hosts :=
                      insert (host (consume_from_request e spec_obj (h2 (obj ch)))) (group_hosts p2)\<rparr>
            else p2"
    let ?s = "st\<lparr>heap := h2(obj ch := consume_from_request e spec_obj (h2 (obj ch))),
                rng := r'',
                trace := trace st @ [Debug_filtered hosts', Debug_weighed ws, Debug_selected ch]\<rparr>"
    let ?s' = "st'\<lparr>heap := h2(obj ch := consume_from_request e spec_obj (h2 (obj ch))),
                rng := snd (d' (rng st')),
                trace := trace st' @ [Debug_filtered hosts', Debug_weighed ws, Debug_selected ch]\<rparr>"
    from nxt(1-3) pk hp have "schedule_round ?e spec_obj num hosts props st' =
        Next hosts' ch ?p ?s'"
      by (simp add: schedule_round_def Let_def)
    then have l1: "schedule_loop ?e spec_obj (num # nums) hosts sel props st' =
        schedule_loop ?e spec_obj nums hosts' (sel @ [ch]) ?p ?s'"
      by simp
    have l2: "schedule_loop e spec_obj (num # nums) hosts sel props st =
        schedule_loop e spec_obj nums hosts' (sel @ [ch]) ?p ?s"
      using nxt(5) by simp
    have "heap ?s' = heap ?s" "trace ?s' = trace ?s" using hp by simp_all
    from Cons.IH [OF this, of hosts' "sel @ [ch]" ?p] l1 l2 show ?thesis by simp
  qed
qed

lemma schedule_round_picks_head:
  assumes one: "scheduler_host_subset_size e \<le> 1"
    and nx: "schedule_round e spec_obj num hosts props st = Next hosts' ch p' st'"
  shows "ch = hd (fst (get_weighed_hosts e
                    (fst (snd (get_filtered_hosts e (heap st) props hosts num)))
                    (snd (snd (get_filtered_hosts e (heap st) props hosts num))) hosts'))
         \<and> trace st' = trace st @
              [Debug_filtered hosts',
               Debug_weighed (fst (get_weighed_hosts e
                    (fst (snd (get_filtered_hosts e (heap st) props hosts num)))
                    (snd (snd (get_filtered_hosts e (heap st) props hosts num))) hosts')),
               Debug_selected ch]"
proof (cases rule: schedule_round_cases [of e st props hosts num spec_obj])
  case (brk h1 p1)
  with nx show ?thesis by simp
next
  case (rse hosts'' h1 p1 ws h2 p2 err)
  with nx show ?thesis by simp
next
  case (nxt hosts'' h1 p1 ws h2 p2 c r')
  from nxt(4) have ws: "ws \<noteq> []" by (auto simp: pick_empty)
  from pick_first [OF one ws, of "rng st"] nxt(4) have c: "c = hd ws" by simp
  from nxt(5) nx have eq: "hosts'' = hosts'" "c = ch"
    "trace st' = trace st @ [Debug_filtered hosts'', Debug_weighed ws, Debug_selected c]"
    by auto
  with nxt(1,3) c show ?thesis by simp
qed

lemma schedule_loop_selects_heads:
  assumes one: "scheduler_host_subset_size e \<le> 1"
  shows "schedule_loop e spec_obj nums hosts sel props st = (Inr sel', st') \<Longrightarrow>
         \<exists>evs. trace st' = trace st @ evs \<and> sel' = sel @ map hd (weighed_lists evs)"
proof (induction nums arbitrary: hosts sel props st)
  case Nil
  then show ?case by simp
next
  case (Cons num nums)
  show ?case
  proof (cases "schedule_round e spec_obj num hosts props st")
    case (Raise err s)
    with Cons.prems show ?thesis by simp
  next
    case (Break s)
    from schedule_round_cases [of e st props hosts num spec_obj] Break
    have "trace s = trace st" by (cases rule: schedule_round_cases [of e st props hosts num spec_obj]) auto
    with Break Cons.prems show ?thesis by simp
  next
    case (Next hs ch p s)
    from schedule_round_picks_head [OF one Next] obtain ws where
      ch: "ch = hd ws" and tr: "trace s = trace st @ [Debug_filtered hs, Debug_weighed ws, Debug_selected ch]"
      by blast
    from Next Cons.prems have "schedule_loop e spec_obj nums hs (sel @ [ch]) p s = (Inr sel', st')"
      by simp
    from Cons.IH [OF this] obtain evs where
      e1: "trace st' = trace s @ evs" and e2: "sel' = (sel @ [ch]) @ map hd (weighed_lists evs)"
      by blast
    have "trace st' = trace st @ ([Debug_filtered hs, Debug_weighed ws, Debug_selected ch] @ evs)"
      using e1 tr by simp
    moreover have "sel' = sel @ map hd (weighed_lists
        ([Debug_filtered hs, Debug_weighed ws, Debug_selected ch] @ evs))"
      using e2 ch by simp
    ultimately show ?thesis by blast
  qed
qed

lemma schedule_selects_heads:
  assumes one: "scheduler_host_subset_size e \<le> 1"
    and ret: "fst (schedule e spec_obj st) = Inr sel"
  shows "\<exists>evs. trace (snd (schedule e spec_obj st)) = trace st @ evs
           \<and> sel = map hd (weighed_lists evs)"
proof -
  obtain hosts h0 where g: "get_all_host_states e (heap st) = (hosts, h0)"
    by (cases "get_all_host_states e (heap st)") auto
  have "schedule e spec_obj st = schedule_loop e spec_obj [0..<num_instances spec_obj] hosts []
      (legacy_filter_properties spec_obj) (st\<lparr>heap := h0\<rparr>)"
    by (simp add: schedule_def g)
  with ret have "schedule_loop e spec_obj [0..<num_instances spec_obj] hosts []
      (legacy_filter_properties spec_obj) (st\<lparr>heap := h0\<rparr>) = (Inr sel, snd (schedule e spec_obj st))"
    by (simp add: prod_eq_iff)
  from schedule_loop_selects_heads [OF one this] show ?thesis by simp
qed

lemma schedule_loop_same_host:
  assumes pass: "\<forall>h p hs i. fst (get_filtered_hosts e h p hs i) = hs
                   \<and> fst (snd (get_filtered_hosts e h p hs i)) = h"
    and top: "\<forall>h p. fst (get_weighed_hosts e h p hosts) \<noteq> []
                   \<and> obj (hd (fst (get_weighed_hosts e h p hosts))) = a
                   \<and> fst (snd (get_weighed_hosts e h p hosts)) = h"
    and one: "scheduler_host_subset_size e \<le> 1"
    and ne: "hosts \<noteq> []"
  shows "\<exists>sel'. fst (schedule_loop e spec_obj nums hosts sel props st) = Inr sel'
           \<and> map obj sel' = map obj sel @ replicate (length nums) a
           \<and> heap (snd (schedule_loop e spec_obj nums hosts sel props st)) a =
               (consume_from_request e spec_obj ^^ length nums) (heap st a)"
proof (induction nums arbitrary: sel props st)
  case Nil
  show ?case by simp
next
  case (Cons num nums)
  from pass have f1: "fst (get_filtered_hosts e (heap st) props hosts num) = hosts"
    and f2: "fst (snd (get_filtered_hosts e (heap st) props hosts num)) = heap st" by simp_all
  show ?case
  proof (cases rule: schedule_round_cases [of e st props hosts num spec_obj])
    case (brk h1 p1)
    with f1 ne show ?thesis by simp
  next
    case (rse hosts' h1 p1 ws h2 p2 err)
    from rse(1) f1 have "hosts' = hosts" by simp
    with top have "fst (get_weighed_hosts e h1 p1 hosts') \<noteq> []" by blast
    with rse(3) have "ws \<noteq> []" by simp
    from pick_nonempty [OF this, of e "rng st"] rse(4) show ?thesis by simp
  next
    case (nxt hosts' h1 p1 ws h2 p2 ch r')
    from nxt(1) f1 f2 have hh: "hosts' = hosts" "h1 = heap st" by simp_all
    from top hh(1) have "fst (get_weighed_hosts e h1 p1 hosts') \<noteq> []
        \<and> obj (hd (fst (get_weighed_hosts e h1 p1 hosts'))) = a
        \<and> fst (snd (get_weighed_hosts e h1 p1 hosts')) = h1" by blast
    with nxt(3) have ws: "ws \<noteq> []" "obj (hd ws) = a" "h2 = h1" by simp_all
    from pick_first [OF one ws(1), of "rng st"] nxt(4) have ch: "ch = hd ws" by simp
    let ?p = "if group_updated p2
            then p2\<lparr>group_hosts :=
                      insert (host (consume_from_request e spec_obj (h2 (obj ch)))) (group_hosts p2)\<rparr>
            else p2"
    let ?s = "st\<lparr>heap := h2(obj ch := consume_from_request e spec_obj (h2 (obj ch))),
                rng := r',
                trace := trace st @ [Debug_filtered hosts', Debug_weighed ws, Debug_selected ch]\<rparr>"
    have loop: "schedule_loop e spec_obj (num # nums) hosts sel props st =
        schedule_loop e spec_obj nums hosts (sel @ [ch]) ?p ?s"
      using nxt(5) hh by simp
    have hp: "heap ?s a = consume_from_request e spec_obj (heap st a)"
      using ch ws hh by simp
    from Cons.IH [of "sel @ [ch]" ?p ?s] obtain sel' where
      r: "fst (schedule_loop e spec_obj nums hosts (sel @ [ch]) ?p ?s) = Inr sel'"
      and m: "map obj sel' = map obj (sel @ [ch]) @ replicate (length nums) a"
      and h: "heap (snd (schedule_loop e spec_obj nums hosts (sel @ [ch]) ?p ?s)) a =
               (consume_from_request e spec_obj ^^ length nums) (heap ?s a)"
      by blast
    from m ch ws have m': "map obj sel' = map obj sel @ replicate (length (num # nums)) a"
      by simp
    from h hp have h': "heap (snd (schedule_loop e spec_obj nums hosts (sel @ [ch]) ?p ?s)) a =
               (consume_from_request e spec_obj ^^ length (num # nums)) (heap st a)"
      by (simp add: funpow_swap1)
    from r m' h' loop show ?thesis by simp
  qed
qed


section \<open>The claims\<close>

text \<open>
  C1. A call of \<open>select_destinations\<close> gives the caller either a list of exactly
  \<open>num_instances\<close> destinations, in assignment order, or the error NoValidHost;
  a partial destination list is never returned.

  As stated this fails: when the weigher answers a non-empty host list with an empty
  sequence, \<open>random.choice\<close> raises IndexError inside the placement loop, nothing
  catches it, and the caller receives IndexError. What holds: no call returns a list
  whose length differs from \<open>num_instances\<close>; and every call in which the placement
  loop returns its list ends either with the destinations of exactly \<open>num_instances\<close>
  selected hosts, in the order of selection, or with NoValidHost.
\<close>

theorem select_destinations_all_or_nothing:
  "(\<forall>dests. fst (select_destinations e spec_obj st) = Inr dests \<longrightarrow>
       length dests = num_instances spec_obj)
   \<and> (\<forall>sel. fst (schedule e spec_obj (notify_start st)) = Inr sel \<longrightarrow>
         (fst (select_destinations e spec_obj st) =
            Inr (map (destination (heap (snd (schedule e spec_obj (notify_start st))))) sel)
          \<and> length sel = num_instances spec_obj)
         \<or> fst (select_destinations e spec_obj st) =
              Inl (NoValidHost ''There are not enough hosts available.''))"
proof -
  have part: "(fst (select_destinations e spec_obj st) =
            Inr (map (destination (heap (snd (schedule e spec_obj (notify_start st))))) sel)
          \<and> length sel = num_instances spec_obj)
         \<or> fst (select_destinations e spec_obj st) =
              Inl (NoValidHost ''There are not enough hosts available.'')"
    if ok: "fst (schedule e spec_obj (notify_start st)) = Inr sel" for sel
  proof (cases "length sel < num_instances spec_obj")
    case True
    from select_destinations_short [OF ok True] show ?thesis by simp
  next
    case False
    moreover from schedule_length_le [OF ok] have "length sel \<le> num_instances spec_obj" .
    ultimately have "length sel = num_instances spec_obj" by simp
    with select_destinations_full [OF ok False] show ?thesis by simp
  qed
  have whole: "length dests = num_instances spec_obj"
    if ret: "fst (select_destinations e spec_obj st) = Inr dests" for dests
  proof (cases "fst (schedule e spec_obj (notify_start st))")
    case (Inl err)
    from select_destinations_raise [OF Inl] ret show ?thesis by simp
  next
    case (Inr sel)
    from part [OF Inr] ret show ?thesis by auto
  qed
  from part whole show ?thesis by blast
qed

theorem select_destinations_all_or_nothing_witness:
  "fst (schedule capacity_env (batch 3) (notify_start (start_state 1))) =
     Inr [wrap 0, wrap 1, wrap 2]
   \<and> fst (select_destinations capacity_env (batch 3) (start_state 1)) =
       Inr [\<lparr>dest_host = ''h'', dest_nodename = ''node'', dest_limits = ()\<rparr>,
            \<lparr>dest_host = ''hh'', dest_nodename = ''node'', dest_limits = ()\<rparr>,
            \<lparr>dest_host = ''hhh'', dest_nodename = ''node'', dest_limits = ()\<rparr>]
   \<and> length [\<lparr>dest_host = ''h'', dest_nodename = ''node'', dest_limits = ()\<rparr>,
            \<lparr>dest_host = ''hh'', dest_nodename = ''node'', dest_limits = ()\<rparr>,
            \<lparr>dest_host = ''hhh'', dest_nodename = ''node'', dest_limits = ()\<rparr>] =
       num_instances (batch 3)
   \<and> length [wrap 0, wrap 1, wrap 2] = num_instances (batch 3)"
proof -
  have s: "fst (schedule capacity_env (batch 3) (notify_start (start_state 1))) =
     Inr [wrap 0, wrap 1, wrap 2]"
    by code_simp
  have d: "fst (select_destinations capacity_env (batch 3) (start_state 1)) =
       Inr [\<lparr>dest_host = ''h'', dest_nodename = ''node'', dest_limits = ()\<rparr>,
            \<lparr>dest_host = ''hh'', dest_nodename = ''node'', dest_limits = ()\<rparr>,
            \<lparr>dest_host = ''hhh'', dest_nodename = ''node'', dest_limits = ()\<rparr>]"
    by code_simp
  from select_destinations_all_or_nothing [of capacity_env "batch 3" "start_state 1"] s d
  show ?thesis by auto
qed

theorem select_destinations_index_error_counterexample:
  "fst (select_destinations empty_weigher_env (batch 1) (start_state 1)) = Inl IndexError"
  by code_simp

text \<open>
  C2. Whenever the placement loop returns fewer selected hosts than \<open>num_instances\<close>,
  \<open>select_destinations\<close> sets the \<open>updated\<close> field of every selected host state to
  None and raises NoValidHost: in the state the call ends in, no selected host has kept
  its marker.
\<close>

theorem select_destinations_invalidates_on_shortfall:
  assumes "fst (schedule e spec_obj (notify_start st)) = Inr sel"
    and "length sel < num_instances spec_obj"
  shows "fst (select_destinations e spec_obj st) =
           Inl (NoValidHost ''There are not enough hosts available.'')
         \<and> (\<forall>wh \<in> set sel. updated (heap (snd (select_destinations e spec_obj st)) (obj wh)) = None)"
  using select_destinations_short [OF assms] by (simp add: updated_invalidate)

text \<open>
  Three hosts with room for one instance each and a request for five: the three hosts
  are selected, the call fails, and the three markers are cleared.
\<close>

theorem select_destinations_invalidates_on_shortfall_witness:
  "fst (schedule capacity_env (batch 5) (notify_start (start_state 1))) =
     Inr [wrap 0, wrap 1, wrap 2]
   \<and> length [wrap 0, wrap 1, wrap 2] < num_instances (batch 5)
   \<and> fst (select_destinations capacity_env (batch 5) (start_state 1)) =
       Inl (NoValidHost ''There are not enough hosts available.'')
   \<and> updated (heap (snd (select_destinations capacity_env (batch 5) (start_state 1))) 0) = None
   \<and> updated (heap (snd (select_destinations capacity_env (batch 5) (start_state 1))) 1) = None
   \<and> updated (heap (snd (select_destinations capacity_env (batch 5) (start_state 1))) 2) = None"
proof -
  have s: "fst (schedule capacity_env (batch 5) (notify_start (start_state 1))) =
     Inr [wrap 0, wrap 1, wrap 2]"
    by code_simp
  have l: "length [wrap 0, wrap 1, wrap 2] < num_instances (batch 5)"
    by (simp add: batch_def)
  from select_destinations_invalidates_on_shortfall [OF s l] s l
  show ?thesis by (simp add: wrap_def)
qed

text \<open>
  C3. In every round, with weighed list \<open>w\<close> and configured size \<open>c\<close>, the effective
  subset size is \<open>clamp(c, 1, len(w))\<close>; a configured size below 1 behaves like size 1,
  a configured size above \<open>len(w)\<close> behaves like size \<open>len(w)\<close>; and the chosen host is
  one of the first effective-size entries of \<open>w\<close>.
\<close>

theorem subset_pick_clamp:
  "subset_size (scheduler_host_subset_size e) (length w) =
     clamp (scheduler_host_subset_size e) 1 (int (length w))
   \<and> (c < 1 \<longrightarrow>
        pick (e\<lparr>scheduler_host_subset_size := c\<rparr>) w r =
        pick (e\<lparr>scheduler_host_subset_size := 1\<rparr>) w r)
   \<and> (int (length w) < c \<longrightarrow>
        pick (e\<lparr>scheduler_host_subset_size := c\<rparr>) w r =
        pick (e\<lparr>scheduler_host_subset_size := int (length w)\<rparr>) w r)
   \<and> (\<forall>x r'. pick e w r = Inr (x, r') \<longrightarrow>
        x \<in> set (take (nat (clamp (scheduler_host_subset_size e) 1 (int (length w)))) w))"
proof (intro conjI impI allI)
  show "subset_size (scheduler_host_subset_size e) (length w) =
     clamp (scheduler_host_subset_size e) 1 (int (length w))"
    by (rule subset_size_clamp)
next
  assume "c < 1"
  then have "subset_size c (length w) = subset_size 1 (length w)"
    by (simp add: subset_size_def Let_def)
  then show "pick (e\<lparr>scheduler_host_subset_size := c\<rparr>) w r =
        pick (e\<lparr>scheduler_host_subset_size := 1\<rparr>) w r"
    by (simp add: pick_def)
next
  assume "int (length w) < c"
  then have "subset_size c (length w) = subset_size (int (length w)) (length w)"
    by (simp add: subset_size_def Let_def)
  then show "pick (e\<lparr>scheduler_host_subset_size := c\<rparr>) w r =
        pick (e\<lparr>scheduler_host_subset_size := int (length w)\<rparr>) w r"
    by (simp add: pick_def)
next
  fix x r'
  assume "pick e w r = Inr (x, r')"
  then have "x \<in> set (take (nat (subset_size (scheduler_host_subset_size e) (length w))) w)"
    unfolding pick_def by (rule choice_Inr_mem)
  then show "x \<in> set (take (nat (clamp (scheduler_host_subset_size e) 1 (int (length w)))) w)"
    by (simp add: subset_size_clamp)
qed

theorem subset_pick_clamp_witness:
  "(0::int) < 1
   \<and> pick (capacity_env\<lparr>scheduler_host_subset_size := 0\<rparr>) [wrap 0, wrap 1, wrap 2] 5 =
       pick (capacity_env\<lparr>scheduler_host_subset_size := 1\<rparr>) [wrap 0, wrap 1, wrap 2] 5
   \<and> int (length [wrap 0, wrap 1, wrap 2]) < 7
   \<and> pick (capacity_env\<lparr>scheduler_host_subset_size := 7\<rparr>) [wrap 0, wrap 1, wrap 2] 5 =
       pick (capacity_env\<lparr>scheduler_host_subset_size := int (length [wrap 0, wrap 1, wrap 2])\<rparr>)
         [wrap 0, wrap 1, wrap 2] 5
   \<and> pick (capacity_env\<lparr>scheduler_host_subset_size := 2\<rparr>) [wrap 0, wrap 1, wrap 2] 5 =
       Inr (wrap 1, 6)
   \<and> wrap 1 \<in> set (take (nat (clamp 2 1 3)) [wrap 0, wrap 1, wrap 2])"
proof -
  have p: "pick (capacity_env\<lparr>scheduler_host_subset_size := 2\<rparr>) [wrap 0, wrap 1, wrap 2] 5 =
       Inr (wrap 1, 6)"
    by code_simp
  from subset_pick_clamp [of capacity_env "[wrap 0, wrap 1, wrap 2]" 0 5]
    subset_pick_clamp [of capacity_env "[wrap 0, wrap 1, wrap 2]" 7 5]
    subset_pick_clamp [of "capacity_env\<lparr>scheduler_host_subset_size := 2\<rparr>"
      "[wrap 0, wrap 1, wrap 2]" 0 5] p
  show ?thesis by simp
qed

text \<open>
  C4. The placement loop \<open>_schedule\<close> never raises an error of its own: it returns a
  list of selected hosts, possibly shorter than \<open>num_instances\<close>, whatever the filter
  chain and the weigher chain return, also when the weigher returns an empty sequence
  for a non-empty filtered list.

  As stated this fails: on an empty weighed list the subset size is raised to 1, the
  slice is empty, and \<open>random.choice\<close> raises IndexError. What holds: when the weigher
  returns a non-empty sequence for every non-empty host list, the loop returns a list
  of at most \<open>num_instances\<close> selected hosts.
\<close>

theorem schedule_returns_for_nonempty_weighed:
  assumes "\<forall>h p hs. hs \<noteq> [] \<longrightarrow> fst (get_weighed_hosts e h p hs) \<noteq> []"
  shows "\<exists>sel. fst (schedule e spec_obj st) = Inr sel \<and> length sel \<le> num_instances spec_obj"
proof -
  obtain hosts h0 where g: "get_all_host_states e (heap st) = (hosts, h0)"
    by (cases "get_all_host_states e (heap st)") auto
  have "schedule e spec_obj st = schedule_loop e spec_obj [0..<num_instances spec_obj] hosts []
      (legacy_filter_properties spec_obj) (st\<lparr>heap := h0\<rparr>)"
    by (simp add: schedule_def g)
  with schedule_loop_returns [OF assms] obtain sel where "fst (schedule e spec_obj st) = Inr sel"
    by metis
  with schedule_length_le [OF this] show ?thesis by blast
qed

theorem schedule_returns_for_nonempty_weighed_witness:
  "\<exists>sel. fst (schedule capacity_env (batch 5) (start_state 1)) = Inr sel
          \<and> length sel \<le> num_instances (batch 5)"
proof -
  have w: "\<forall>h p hs. hs \<noteq> [] \<longrightarrow> fst (get_weighed_hosts capacity_env h p hs) \<noteq> []"
    by (simp add: capacity_env_def)
  from schedule_returns_for_nonempty_weighed [OF w] show ?thesis by blast
qed

theorem schedule_index_error_counterexample:
  "fst (get_filtered_hosts empty_weigher_env (heap (start_state 1))
          (legacy_filter_properties (batch 1)) [0, 1, 2] 0) = [0, 1, 2]
   \<and> fst (get_weighed_hosts empty_weigher_env (heap (start_state 1))
          (legacy_filter_properties (batch 1)) [0, 1, 2]) = []
   \<and> fst (schedule empty_weigher_env (batch 1) (start_state 1)) = Inl IndexError"
  by code_simp

text \<open>
  C5. For a batch of K instances against at least K eligible hosts, where every host
  passes the filter in every round, the returned result holds exactly K distinct hosts.

  As stated this fails: a chosen host stays in the host list, so with a subset size of
  1 and a weigher that keeps ranking it first the same host is selected again. What
  holds: the returned result has exactly K entries.
\<close>

theorem schedule_exact_count:
  assumes "\<forall>h p hs i. fst (get_filtered_hosts e h p hs i) = hs"
    and "num_instances spec_obj \<le> length (fst (get_all_host_states e (heap st)))"
    and "fst (schedule e spec_obj st) = Inr sel"
  shows "length sel = num_instances spec_obj"
proof (cases "num_instances spec_obj = 0")
  case True
  with schedule_length_le [OF assms(3)] show ?thesis by simp
next
  case False
  obtain hosts h0 where g: "get_all_host_states e (heap st) = (hosts, h0)"
    by (cases "get_all_host_states e (heap st)") auto
  with assms(2) False have ne: "hosts \<noteq> []" by auto
  have "schedule e spec_obj st = schedule_loop e spec_obj [0..<num_instances spec_obj] hosts []
      (legacy_filter_properties spec_obj) (st\<lparr>heap := h0\<rparr>)"
    by (simp add: schedule_def g)
  with assms(3) have "schedule_loop e spec_obj [0..<num_instances spec_obj] hosts []
      (legacy_filter_properties spec_obj) (st\<lparr>heap := h0\<rparr>) = (Inr sel, snd (schedule e spec_obj st))"
    by (simp add: prod_eq_iff)
  from schedule_loop_full [OF assms(1) ne this] show ?thesis by simp
qed

theorem schedule_exact_count_witness:
  "num_instances (batch 2) \<le> length (fst (get_all_host_states all_pass_env (heap (start_state 9))))
   \<and> fst (schedule all_pass_env (batch 2) (start_state 9)) = Inr [wrap 0, wrap 0]
   \<and> length [wrap 0, wrap 0] = num_instances (batch 2)"
proof -
  have f: "\<forall>h p hs i. fst (get_filtered_hosts all_pass_env h p hs i) = hs"
    by (simp add: all_pass_env_def capacity_env_def)
  have n: "num_instances (batch 2) \<le>
      length (fst (get_all_host_states all_pass_env (heap (start_state 9))))"
    by (simp add: all_pass_env_def capacity_env_def batch_def)
  have s: "fst (schedule all_pass_env (batch 2) (start_state 9)) = Inr [wrap 0, wrap 0]"
    by code_simp
  from schedule_exact_count [OF f n s] n s show ?thesis by blast
qed

text \<open>
  Three hosts with capacity 10 each, every host passes every round, two instances: both
  go to host 0.
\<close>

theorem schedule_repeats_host_counterexample:
  "fst (get_all_host_states all_pass_env (heap (start_state 10))) = [0, 1, 2]
   \<and> map_sum id (map obj) (fst (schedule all_pass_env (batch 2) (start_state 10))) = Inr [0, 0]
   \<and> \<not> distinct [0 :: nat, 0]"
  by code_simp

text \<open>
  C6. The list the placement loop returns is never longer than \<open>num_instances\<close>; and
  in a round whose filter chain returns an empty host list the loop stops at once and
  returns exactly the hosts selected in the earlier rounds (the state is the one the
  filter chain left: no weighing, no pick, no consumption follows).
\<close>

theorem schedule_bounded_and_stops_on_empty:
  "(\<forall>sel. fst (schedule e spec_obj st) = Inr sel \<longrightarrow> length sel \<le> num_instances spec_obj)
   \<and> (\<forall>num nums hosts selected props s.
        fst (get_filtered_hosts e (heap s) props hosts num) = [] \<longrightarrow>
        schedule_loop e spec_obj (num # nums) hosts selected props s =
          (Inr selected, s\<lparr>heap := fst (snd (get_filtered_hosts e (heap s) props hosts num))\<rparr>))"
  by (simp add: schedule_length_le schedule_round_break)

theorem schedule_bounded_and_stops_on_empty_witness:
  "fst (schedule capacity_env (batch 5) (start_state 1)) = Inr [wrap 0, wrap 1, wrap 2]
   \<and> length [wrap 0, wrap 1, wrap 2] \<le> num_instances (batch 5)
   \<and> fst (get_filtered_hosts capacity_env (heap (start_state 0))
            (legacy_filter_properties (batch 5)) [0, 1, 2] 3) = []
   \<and> fst (schedule_loop capacity_env (batch 5) [3, 4] [0, 1, 2] [wrap 1]
            (legacy_filter_properties (batch 5)) (start_state 0)) = Inr [wrap 1]"
proof -
  have s: "fst (schedule capacity_env (batch 5) (start_state 1)) = Inr [wrap 0, wrap 1, wrap 2]"
    by code_simp
  have f: "fst (get_filtered_hosts capacity_env (heap (start_state 0))
            (legacy_filter_properties (batch 5)) [0, 1, 2] 3) = []"
    by code_simp
  from schedule_bounded_and_stops_on_empty [of capacity_env "batch 5" "start_state 1"] s f
  show ?thesis by simp
qed

text \<open>
  C7. When the filter chain returns a sublist of the list it is given, every round
  filters the filtered list of the round before, not the original snapshot: each
  filtered list is a sublist of all earlier ones and of the snapshot, so the sizes never
  grow from round to round. (The lists are the ones logged at line 151; the empty list
  that ends a run at the \<open>break\<close> is not logged and is shorter than any other.)
\<close>

theorem filtered_lists_narrow_across_rounds:
  assumes "\<forall>h p hs i. subseq (fst (get_filtered_hosts e h p hs i)) hs"
  shows "\<exists>evs. trace (snd (schedule e spec_obj st)) = trace st @ evs
           \<and> sorted_wrt (\<lambda>a b. subseq b a)
                (fst (get_all_host_states e (heap st)) # filtered_lists evs)
           \<and> sorted_wrt (\<lambda>a b. length b \<le> length a)
                (fst (get_all_host_states e (heap st)) # filtered_lists evs)"
proof -
  obtain hosts h0 where g: "get_all_host_states e (heap st) = (hosts, h0)"
    by (cases "get_all_host_states e (heap st)") auto
  have sch: "schedule e spec_obj st = schedule_loop e spec_obj [0..<num_instances spec_obj] hosts []
      (legacy_filter_properties spec_obj) (st\<lparr>heap := h0\<rparr>)"
    by (simp add: schedule_def g)
  from schedule_loop_narrows [OF assms, of spec_obj "[0..<num_instances spec_obj]" hosts "[]"
      "legacy_filter_properties spec_obj" "st\<lparr>heap := h0\<rparr>"]
  obtain evs where ev: "trace (snd (schedule e spec_obj st)) = trace st @ evs"
    and so: "sorted_wrt (\<lambda>a b. subseq b a) (hosts # filtered_lists evs)"
    using sch by auto
  have "sorted_wrt (\<lambda>a b. length b \<le> length a) (hosts # filtered_lists evs)"
    by (rule sorted_wrt_mono_rel [OF _ so]) (rule list_emb_length)
  with ev so g show ?thesis by auto
qed

theorem filtered_lists_narrow_across_rounds_witness:
  "filtered_lists (trace (snd (schedule capacity_env (batch 5) (start_state 1)))) =
       [[0, 1, 2], [1, 2], [2]]
   \<and> (\<exists>evs. trace (snd (schedule capacity_env (batch 5) (start_state 1))) =
               trace (start_state 1) @ evs
          \<and> sorted_wrt (\<lambda>a b. subseq b a)
               (fst (get_all_host_states capacity_env (heap (start_state 1))) # filtered_lists evs)
          \<and> sorted_wrt (\<lambda>a b. length b \<le> length a)
               (fst (get_all_host_states capacity_env (heap (start_state 1))) # filtered_lists evs))"
proof -
  have f: "\<forall>h p hs i. subseq (fst (get_filtered_hosts capacity_env h p hs i)) hs"
    by (simp add: capacity_env_def)
  have t: "filtered_lists (trace (snd (schedule capacity_env (batch 5) (start_state 1)))) =
       [[0, 1, 2], [1, 2], [2]]"
    by code_simp
  from filtered_lists_narrow_across_rounds [OF f, of "batch 5" "start_state 1"] t
  show ?thesis by blast
qed

text \<open>
  C8. With a subset size of 1 the pick of every round is the first host of the weighed
  list, whatever the random source draws: this holds of the pick alone, of every round
  of the loop that goes on to the next one (its chosen host is the head of the list the
  weigher returned for the filtered hosts of that round), and of a whole run (the
  selected hosts are, in order, the heads of the weighed lists logged at line 156). So
  the host sequence a run selects does not depend on the random source at all, and two
  runs on the same request and host set with the same random source select the same
  sequence.
\<close>

theorem subset_one_picks_first_deterministically:
  assumes "scheduler_host_subset_size e \<le> 1"
  shows "(\<forall>ws r. ws \<noteq> [] \<longrightarrow>
            subset_size (scheduler_host_subset_size e) (length ws) = 1
            \<and> pick e ws r = Inr (hd ws, snd (draw e r)))
         \<and> (\<forall>d' r'. fst (schedule (e\<lparr>draw := d'\<rparr>) spec_obj (st\<lparr>rng := r'\<rparr>)) =
                     fst (schedule e spec_obj st))
         \<and> (\<forall>num hosts props s hosts' ch p' s'.
              schedule_round e spec_obj num hosts props s = Next hosts' ch p' s' \<longrightarrow>
              ch = hd (fst (get_weighed_hosts e
                     (fst (snd (get_filtered_hosts e (heap s) props hosts num)))
                     (snd (snd (get_filtered_hosts e (heap s) props hosts num))) hosts')))
         \<and> (\<forall>sel. fst (schedule e spec_obj st) = Inr sel \<longrightarrow>
              (\<exists>evs. trace (snd (schedule e spec_obj st)) = trace st @ evs
                 \<and> sel = map hd (weighed_lists evs)))"
proof -
  have "fst (schedule (e\<lparr>draw := d'\<rparr>) spec_obj (st\<lparr>rng := r'\<rparr>)) = fst (schedule e spec_obj st)"
    for d' r'
  proof -
    obtain hosts h0 where g: "get_all_host_states e (heap st) = (hosts, h0)"
      by (cases "get_all_host_states e (heap st)") auto
    have "fst (schedule_loop (e\<lparr>draw := d'\<rparr>) spec_obj [0..<num_instances spec_obj] hosts []
              (legacy_filter_properties spec_obj) (st\<lparr>rng := r', heap := h0\<rparr>)) =
          fst (schedule_loop e spec_obj [0..<num_instances spec_obj] hosts []
              (legacy_filter_properties spec_obj) (st\<lparr>heap := h0\<rparr>))"
      by (rule schedule_loop_ignores_rng [OF assms]) simp_all
    then show ?thesis using g by (simp add: schedule_def)
  qed
  moreover have "\<forall>ws r. ws \<noteq> [] \<longrightarrow>
            subset_size (scheduler_host_subset_size e) (length ws) = 1
            \<and> pick e ws r = Inr (hd ws, snd (draw e r))"
    using assms by (simp add: subset_size_one pick_first)
  moreover have "\<forall>num hosts props s hosts' ch p' s'.
              schedule_round e spec_obj num hosts props s = Next hosts' ch p' s' \<longrightarrow>
              ch = hd (fst (get_weighed_hosts e
                     (fst (snd (get_filtered_hosts e (heap s) props hosts num)))
                     (snd (snd (get_filtered_hosts e (heap s) props hosts num))) hosts'))"
    using schedule_round_picks_head [OF assms] by blast
  moreover have "\<forall>sel. fst (schedule e spec_obj st) = Inr sel \<longrightarrow>
              (\<exists>evs. trace (snd (schedule e spec_obj st)) = trace st @ evs
                 \<and> sel = map hd (weighed_lists evs))"
    using schedule_selects_heads [OF assms] by blast
  ultimately show ?thesis by blast
qed

theorem subset_one_picks_first_deterministically_witness:
  "scheduler_host_subset_size capacity_env \<le> 1
   \<and> pick capacity_env [wrap 1, wrap 2] 7 = Inr (wrap 1, 8)
   \<and> fst (schedule capacity_env (batch 3) (start_state 2)) = Inr [wrap 0, wrap 0, wrap 1]
   \<and> fst (schedule (capacity_env\<lparr>draw := (\<lambda>r. (r + 1, r + 3))\<rparr>) (batch 3)
            ((start_state 2)\<lparr>rng := 4\<rparr>)) = Inr [wrap 0, wrap 0, wrap 1]
   \<and> weighed_lists (trace (snd (schedule capacity_env (batch 3) (start_state 2)))) =
       [[wrap 0, wrap 1, wrap 2], [wrap 0, wrap 1, wrap 2], [wrap 1, wrap 2]]
   \<and> schedule_round capacity_env (batch 3) 2 [0, 1, 2] (legacy_filter_properties (batch 3))
         ((start_state 2)\<lparr>heap := (\<lambda>a. named_host a (if a = 0 then 0 else 2))\<rparr>) =
       Next [1, 2] (wrap 1) (legacy_filter_properties (batch 3))
         \<lparr>heap = (\<lambda>a. named_host a (if a = 0 then 0 else if a = 1 then 1 else 2)),
          rng = 1,
          trace = [Debug_filtered [1, 2], Debug_weighed [wrap 1, wrap 2], Debug_selected (wrap 1)]\<rparr>
   \<and> (\<exists>evs. trace (snd (schedule capacity_env (batch 3) (start_state 2))) =
               trace (start_state 2) @ evs
          \<and> [wrap 0, wrap 0, wrap 1] = map hd (weighed_lists evs))"
proof -
  have c: "scheduler_host_subset_size capacity_env \<le> 1"
    by (simp add: capacity_env_def)
  have s: "fst (schedule capacity_env (batch 3) (start_state 2)) = Inr [wrap 0, wrap 0, wrap 1]"
    by code_simp
  have w: "weighed_lists (trace (snd (schedule capacity_env (batch 3) (start_state 2)))) =
       [[wrap 0, wrap 1, wrap 2], [wrap 0, wrap 1, wrap 2], [wrap 1, wrap 2]]"
    by code_simp
  have p: "pick capacity_env [wrap 1, wrap 2] 7 = Inr (wrap 1, 8)"
    by code_simp
  have r: "schedule_round capacity_env (batch 3) 2 [0, 1, 2] (legacy_filter_properties (batch 3))
         ((start_state 2)\<lparr>heap := (\<lambda>a. named_host a (if a = 0 then 0 else 2))\<rparr>) =
       Next [1, 2] (wrap 1) (legacy_filter_properties (batch 3))
         \<lparr>heap = (\<lambda>a. named_host a (if a = 0 then 0 else if a = 1 then 1 else 2)),
          rng = 1,
          trace = [Debug_filtered [1, 2], Debug_weighed [wrap 1, wrap 2], Debug_selected (wrap 1)]\<rparr>"
    by (auto simp: schedule_round_def capacity_env_def start_state_def batch_def pick_def
        choice_def subset_size_def wrap_def named_host_def Let_def fun_eq_iff)
  from subset_one_picks_first_deterministically [OF c, of "batch 3" "start_state 2"] c s w p r
  show ?thesis by simp
qed

text \<open>
  C9. The selected list may hold the same host state more than once: the chosen host is
  not removed from the host list. When every host passes the filter, the subset size is
  1 and the weigher keeps ranking host \<open>a\<close> first after each consumption, all
  \<open>num_instances\<close> rounds select \<open>a\<close>, and the capacity of \<open>a\<close> is consumed once per
  round.
\<close>

theorem same_host_selected_every_round:
  assumes "\<forall>h p hs i. fst (get_filtered_hosts e h p hs i) = hs
                   \<and> fst (snd (get_filtered_hosts e h p hs i)) = h"
    and "\<forall>h p. fst (get_weighed_hosts e h p (fst (get_all_host_states e (heap st)))) \<noteq> []
            \<and> obj (hd (fst (get_weighed_hosts e h p (fst (get_all_host_states e (heap st)))))) = a
            \<and> fst (snd (get_weighed_hosts e h p (fst (get_all_host_states e (heap st))))) = h"
    and "scheduler_host_subset_size e \<le> 1"
    and "fst (get_all_host_states e (heap st)) \<noteq> []"
  shows "\<exists>sel. fst (schedule e spec_obj st) = Inr sel
           \<and> map obj sel = replicate (num_instances spec_obj) a
           \<and> heap (snd (schedule e spec_obj st)) a =
               (consume_from_request e spec_obj ^^ num_instances spec_obj)
                 (snd (get_all_host_states e (heap st)) a)"
proof -
  obtain hosts h0 where g: "get_all_host_states e (heap st) = (hosts, h0)"
    by (cases "get_all_host_states e (heap st)") auto
  with assms(4) have ne: "hosts \<noteq> []" by simp
  from assms(2) g have top: "\<forall>h p. fst (get_weighed_hosts e h p hosts) \<noteq> []
            \<and> obj (hd (fst (get_weighed_hosts e h p hosts))) = a
            \<and> fst (snd (get_weighed_hosts e h p hosts)) = h" by simp
  have sch: "schedule e spec_obj st = schedule_loop e spec_obj [0..<num_instances spec_obj] hosts []
      (legacy_filter_properties spec_obj) (st\<lparr>heap := h0\<rparr>)"
    by (simp add: schedule_def g)
  from schedule_loop_same_host [OF assms(1) top assms(3) ne, of spec_obj
      "[0..<num_instances spec_obj]" "[]" "legacy_filter_properties spec_obj" "st\<lparr>heap := h0\<rparr>"]
  show ?thesis using sch g by simp
qed

theorem same_host_selected_every_round_witness:
  "fst (schedule all_pass_env (batch 3) (start_state 9)) = Inr [wrap 0, wrap 0, wrap 0]
   \<and> available_capacity (heap (start_state 9) 0) = 9
   \<and> available_capacity (heap (snd (schedule all_pass_env (batch 3) (start_state 9))) 0) = 6
   \<and> (\<exists>sel. fst (schedule all_pass_env (batch 3) (start_state 9)) = Inr sel
          \<and> map obj sel = replicate (num_instances (batch 3)) 0
          \<and> heap (snd (schedule all_pass_env (batch 3) (start_state 9))) 0 =
              (consume_from_request all_pass_env (batch 3) ^^ num_instances (batch 3))
                (snd (get_all_host_states all_pass_env (heap (start_state 9))) 0))"
proof -
  have f: "\<forall>h p hs i. fst (get_filtered_hosts all_pass_env h p hs i) = hs
                   \<and> fst (snd (get_filtered_hosts all_pass_env h p hs i)) = h"
    by (simp add: all_pass_env_def capacity_env_def)
  have w: "\<forall>h p. fst (get_weighed_hosts all_pass_env h p
                (fst (get_all_host_states all_pass_env (heap (start_state 9))))) \<noteq> []
            \<and> obj (hd (fst (get_weighed_hosts all_pass_env h p
                (fst (get_all_host_states all_pass_env (heap (start_state 9))))))) = 0
            \<and> fst (snd (get_weighed_hosts all_pass_env h p
                (fst (get_all_host_states all_pass_env (heap (start_state 9)))))) = h"
    by (simp add: all_pass_env_def capacity_env_def wrap_def)
  have c: "scheduler_host_subset_size all_pass_env \<le> 1"
    by (simp add: all_pass_env_def capacity_env_def)
  have n: "fst (get_all_host_states all_pass_env (heap (start_state 9))) \<noteq> []"
    by (simp add: all_pass_env_def capacity_env_def)
  have s: "fst (schedule all_pass_env (batch 3) (start_state 9)) = Inr [wrap 0, wrap 0, wrap 0]"
    by code_simp
  have b: "available_capacity (heap (start_state 9) 0) = 9"
    by code_simp
  have a: "available_capacity (heap (snd (schedule all_pass_env (batch 3) (start_state 9))) 0) = 6"
    by code_simp
  from same_host_selected_every_round [OF f w c n, of "batch 3"] s b a
  show ?thesis by blast
qed

text \<open>
  C10. A request for zero instances does not fail: the loop runs no round, the
  shortfall check \<open>0 < 0\<close> is false, and the call returns an empty destination list
  after the start and the end notification. No NoValidHost is raised, and the heap is
  the one the host state provider handed over: no host is consumed from or invalidated.
\<close>

theorem select_destinations_zero_instances:
  "fst (select_destinations e (spec_obj\<lparr>num_instances := 0\<rparr>) st) = Inr []
   \<and> trace (snd (select_destinations e (spec_obj\<lparr>num_instances := 0\<rparr>) st)) =
       trace st @ [Notifier_info ''scheduler.select_destinations.start'',
                   Notifier_info ''scheduler.select_destinations.end'']
   \<and> heap (snd (select_destinations e (spec_obj\<lparr>num_instances := 0\<rparr>) st)) =
       snd (get_all_host_states e (heap st))
   \<and> rng (snd (select_destinations e (spec_obj\<lparr>num_instances := 0\<rparr>) st)) = rng st"
  by (simp add: select_destinations_def schedule_def notify_start_def split: prod.splits)

theorem select_destinations_zero_instances_witness:
  "fst (select_destinations capacity_env (batch 0) (start_state 1)) = Inr []
   \<and> trace (snd (select_destinations capacity_env (batch 0) (start_state 1))) =
       [Notifier_info ''scheduler.select_destinations.start'',
        Notifier_info ''scheduler.select_destinations.end'']"
proof -
  have b: "(batch 0)\<lparr>num_instances := 0\<rparr> = batch 0"
    by (simp add: batch_def)
  from select_destinations_zero_instances [of capacity_env "batch 0" "start_state 1"] b
  show ?thesis by (simp add: start_state_def)
qed

end
